theory Spec2Isabelle
  imports Main
begin

section \<open>Data model of the connector framework\<close>

text \<open>
  The module \<^verbatim>\<open>connectors/core/connector_framework.py\<close> discovers applications,
  records metadata about each of them and plans one connector per pair of applications.
  The enumerations of the module are datatypes, its dataclasses are records, and the
  values that \<^verbatim>\<open>json.load\<close> returns (the type \<^verbatim>\<open>Any\<close> of the annotations) are the
  datatype \<open>json\<close>; an object keeps its keys in insertion order, as a Python dict does,
  and a number is an integer (the module inspects a loaded number only for being zero).
\<close>

datatype ApplicationType =
  NODEJS_TYPESCRIPT | PYTHON_STREAMLIT | REACT_FRONTEND | EXPRESS_BACKEND

datatype ConnectionProtocol =
  REST_API | WEBSOCKET | GRAPHQL | MESSAGE_QUEUE | DIRECT_FUNCTION

datatype json =
  JNull | JBool bool | JNum int | JStr string | JArr "json list" | JObj "(string \<times> json) list"

type_synonym path = "string list"

record ApplicationMetadata =
  name :: string
  type :: ApplicationType
  base_path :: path
  port :: "int option"
  api_endpoints :: "string list"
  database_schema :: "(string \<times> json) list"
  dependencies :: "string list"
  integration_points :: "json list"

record ConnectorConfig =
  source_app :: string
  target_app :: string
  protocols :: "ConnectionProtocol list"
  data_mappings :: "(string \<times> string) list"
  transformation_rules :: "json list"
  sync_frequency :: string
  error_handling :: "(string \<times> json) list"

section \<open>Python values and exceptions\<close>

text \<open>
  An exception that leaves a function is the \<open>Inl\<close> of its result. \<open>JNull\<close> is Python's
  \<^verbatim>\<open>None\<close>. The functions below are the operators the module applies to a value
  loaded from JSON: truth value, \<^verbatim>\<open>in\<close>, subscription, \<^verbatim>\<open>.get\<close> and \<^verbatim>\<open>.keys\<close>.
  A \<open>JObj\<close> stands for a dict, so its keys are pairwise distinct and \<open>map_of\<close> is
  the lookup. Text is a list of 8-bit characters.
\<close>

datatype exn =
  OSError | UnicodeDecodeError | JSONDecodeError | TypeError | AttributeError | ValueError
  | KeyError string

fun truthy :: "json \<Rightarrow> bool" where
  "truthy JNull = False"
| "truthy (JBool b) = b"
| "truthy (JNum n) = (n \<noteq> 0)"
| "truthy (JStr s) = (s \<noteq> [])"
| "truthy (JArr xs) = (xs \<noteq> [])"
| "truthy (JObj m) = (m \<noteq> [])"

fun strip_prefix :: "string \<Rightarrow> string \<Rightarrow> string option" where
  "strip_prefix [] s = Some s"
| "strip_prefix (p # ps) [] = None"
| "strip_prefix (p # ps) (c # cs) = (if p = c then strip_prefix ps cs else None)"

fun substring :: "string \<Rightarrow> string \<Rightarrow> bool" where
  "substring k [] = (k = [])"
| "substring k (c # cs) = (strip_prefix k (c # cs) \<noteq> None \<or> substring k cs)"

fun py_in :: "string \<Rightarrow> json \<Rightarrow> exn + bool" where
  "py_in k (JObj m) = Inr (k \<in> set (map fst m))"
| "py_in k (JArr xs) = Inr (JStr k \<in> set xs)"
| "py_in k (JStr s) = Inr (substring k s)"
| "py_in k _ = Inl TypeError"

fun py_getitem :: "json \<Rightarrow> string \<Rightarrow> exn + json" where
  "py_getitem (JObj m) k = (case map_of m k of None \<Rightarrow> Inl (KeyError k) | Some v \<Rightarrow> Inr v)"
| "py_getitem _ k = Inl TypeError"

fun py_get :: "json \<Rightarrow> string \<Rightarrow> json \<Rightarrow> exn + json" where
  "py_get (JObj m) k dflt = Inr (case map_of m k of None \<Rightarrow> dflt | Some v \<Rightarrow> v)"
| "py_get _ k dflt = Inl AttributeError"

fun py_keys :: "json \<Rightarrow> exn + string list" where
  "py_keys (JObj m) = Inr (map fst m)"
| "py_keys _ = Inl AttributeError"

text \<open>
  Assignment \<^verbatim>\<open>d[k] = v\<close> to a dict kept in insertion order: an existing key keeps its
  place, a new key goes to the end.
\<close>

fun dict_set :: "('k \<times> 'v) list \<Rightarrow> 'k \<Rightarrow> 'v \<Rightarrow> ('k \<times> 'v) list" where
  "dict_set [] k v = [(k, v)]"
| "dict_set ((k', v') # d) k v = (if k' = k then (k, v) # d else (k', v') # dict_set d k v)"

section \<open>The file system\<close>

text \<open>
  What the module asks of the file system, as a record of functions: \<^verbatim>\<open>Path.exists\<close>,
  \<^verbatim>\<open>Path.is_file\<close>, \<^verbatim>\<open>Path.glob\<close> (the paths in the order they are yielded),
  opening and reading a text file (\<open>Inl\<close> carries \<^verbatim>\<open>str(e)\<close> of the exception raised),
  and opening a file and passing it to \<^verbatim>\<open>json.load\<close>. A path is the list of its
  components.
\<close>

record filesystem =
  fs_exists :: "path \<Rightarrow> bool"
  fs_is_file :: "path \<Rightarrow> bool"
  fs_glob :: "path \<Rightarrow> string \<Rightarrow> path list"
  fs_read :: "path \<Rightarrow> string + string"
  fs_json_load :: "path \<Rightarrow> exn + json"

definition path_str :: "path \<Rightarrow> string" where
  "path_str p = concat (map (\<lambda>c. CHR ''/'' # c) p)"

section \<open>Signal extractors\<close>

subsection \<open>Port\<close>

text \<open>
  \<^verbatim>\<open>re.search(r'PORT=(\d+)', dev_script)\<close>: the leftmost position where \<^verbatim>\<open>PORT=\<close> is
  followed by a digit; group 1 is the longest run of digits there. Among the 8-bit
  characters the decimal digits that \<^verbatim>\<open>\d\<close> matches and \<^verbatim>\<open>int\<close> reads are \<^verbatim>\<open>0\<close> to
  \<^verbatim>\<open>9\<close>; a text with a character beyond them is outside the model. \<^verbatim>\<open>int\<close> raises
  \<^verbatim>\<open>ValueError\<close> for more digits than the interpreter's limit, 4300 unless changed.
\<close>

definition is_digit :: "char \<Rightarrow> bool" where
  "is_digit c = (c \<in> set ''0123456789'')"

definition match_port :: "string \<Rightarrow> string option" where
  "match_port s =
     (case strip_prefix ''PORT='' s of
        None \<Rightarrow> None
      | Some r \<Rightarrow> (if takeWhile is_digit r = [] then None else Some (takeWhile is_digit r)))"

fun search_port :: "string \<Rightarrow> string option" where
  "search_port [] = None"
| "search_port (c # cs) =
     (case match_port (c # cs) of Some d \<Rightarrow> Some d | None \<Rightarrow> search_port cs)"

definition int_max_str_digits :: nat where
  "int_max_str_digits = 4300"

definition int_of_digits :: "string \<Rightarrow> exn + int" where
  "int_of_digits ds =
     (if int_max_str_digits < length ds then Inl ValueError
      else Inr (foldl (\<lambda>a c. 10 * a + (of_char c - 48)) 0 ds))"

definition extract_port :: "json \<Rightarrow> exn + int option" where
  "extract_port package_json =
     (if \<not> truthy package_json then Inr None
      else case py_in ''scripts'' package_json of
        Inl e \<Rightarrow> Inl e
      | Inr False \<Rightarrow> Inr None
      | Inr True \<Rightarrow>
         (case py_getitem package_json ''scripts'' of
            Inl e \<Rightarrow> Inl e
          | Inr scripts \<Rightarrow>
             (case py_get scripts ''dev'' (JStr []) of
                Inl e \<Rightarrow> Inl e
              | Inr dev_script \<Rightarrow>
                 (case py_in ''PORT='' dev_script of
                    Inl e \<Rightarrow> Inl e
                  | Inr False \<Rightarrow> Inr None
                  | Inr True \<Rightarrow>
                     (case dev_script of
                        JStr s \<Rightarrow>
                          (case search_port s of
                             Some ds \<Rightarrow>
                               (case int_of_digits ds of
                                  Inl e \<Rightarrow> Inl e
                                | Inr n \<Rightarrow> Inr (Some n))
                           | None \<Rightarrow> Inr None)
                      | _ \<Rightarrow> Inl TypeError)))))"

subsection \<open>Routes\<close>

text \<open>
  Each of the six regular expressions of \<^verbatim>\<open>express_patterns\<close> is a literal text, a quote
  character, group 1 \<^verbatim>\<open>([^'"]+)\<close> and a quote character; the list below holds the
  literal texts, in the order of the source. \<open>match_route\<close> matches one expression at the
  start of a text and returns group 1 with the text after the match: the group is the
  longest run of characters that are not quotes, since a shorter run is followed by a
  character that is no quote.
\<close>

definition express_patterns :: "string list" where
  "express_patterns =
     [''app.get('', ''app.post('', ''app.put('', ''app.delete('',
      ''router.get('', ''router.post('']"

definition is_quote :: "char \<Rightarrow> bool" where
  "is_quote c = (c = CHR 0x27 \<or> c = CHR 0x22)"

definition match_route :: "string \<Rightarrow> string \<Rightarrow> (string \<times> string) option" where
  "match_route lit s =
     (case strip_prefix lit s of
        None \<Rightarrow> None
      | Some [] \<Rightarrow> None
      | Some (q # r) \<Rightarrow>
          (if \<not> is_quote q \<or> takeWhile (\<lambda>c. \<not> is_quote c) r = [] then None
           else case dropWhile (\<lambda>c. \<not> is_quote c) r of
                  [] \<Rightarrow> None
                | q' # rest \<Rightarrow> Some (takeWhile (\<lambda>c. \<not> is_quote c) r, rest)))"

text \<open>
  \<^verbatim>\<open>re.finditer\<close>: the matches from left to right, none overlapping another, each with
  the offset where it starts. After a match the scan goes on behind it, otherwise one
  character further. \<^verbatim>\<open>re.findall\<close> returns group 1 of each match.
\<close>

function finditer :: "string \<Rightarrow> nat \<Rightarrow> string \<Rightarrow> (nat \<times> string) list" where
  "finditer lit pos s =
     (case match_route lit s of
        Some (g, rest) \<Rightarrow> (pos, g) # finditer lit (pos + (length s - length rest)) rest
      | None \<Rightarrow> (case s of [] \<Rightarrow> [] | c # cs \<Rightarrow> finditer lit (Suc pos) cs))"
  by pat_completeness auto
termination
proof (relation "measure (\<lambda>(lit, pos, s). length s)")
  show "wf (measure (\<lambda>(lit, pos, s). length s))" by simp
next
  fix lit :: string and pos :: nat and s g rest :: string and m :: "string \<times> string"
  assume m: "match_route lit s = Some m" "(g, rest) = m"
  have sp: "\<And>t r. strip_prefix lit t = Some r \<Longrightarrow> length r \<le> length t"
  proof (induction lit)
    case Nil
    then show ?case by simp
  next
    case (Cons p ps)
    then show ?case by (cases t) (auto split: if_splits intro: le_SucI)
  qed
  from m obtain q r q' where r: "strip_prefix lit s = Some (q # r)"
      and d: "dropWhile (\<lambda>c. \<not> is_quote c) r = q' # rest"
    by (auto simp: match_route_def split: option.splits list.splits if_splits)
  have "length (dropWhile (\<lambda>c. \<not> is_quote c) r) \<le> length r"
    by (rule length_dropWhile_le)
  with d have "length rest < length r" by simp
  moreover from sp [OF r] have "length r < length s" by simp
  ultimately show "((lit, pos + (length s - length rest), rest), (lit, pos, s))
      \<in> measure (\<lambda>(lit, pos, s). length s)" by simp
next
  fix lit :: string and pos :: nat and s :: string and c :: char and cs :: string
  assume "s = c # cs"
  then show "((lit, Suc pos, cs), (lit, pos, s)) \<in> measure (\<lambda>(lit, pos, s). length s)"
    by simp
qed

declare finditer.simps [simp del]

definition findall :: "string \<Rightarrow> string \<Rightarrow> string list" where
  "findall lit content = map snd (finditer lit 0 content)"

text \<open>
  \<^verbatim>\<open>_parse_routes_from_file\<close>: \<open>parse_routes\<close> is the loop over the patterns on the text
  read; an exception while opening or reading the file is caught and the endpoints
  found so far, none, are returned.
\<close>

definition parse_routes :: "string \<Rightarrow> string list" where
  "parse_routes content =
     foldl (\<lambda>endpoints pattern. endpoints @ findall pattern content) [] express_patterns"

definition parse_routes_from_file :: "filesystem \<Rightarrow> path \<Rightarrow> string list" where
  "parse_routes_from_file fs file_path =
     (case fs_read fs file_path of Inl e \<Rightarrow> [] | Inr content \<Rightarrow> parse_routes content)"

subsection \<open>Schema hints\<close>

text \<open>
  \<^verbatim>\<open>_parse_schema_file\<close> returns the dict \<^verbatim>\<open>{"tables": {}, "raw_content": content[:1000]}\<close>,
  or \<^verbatim>\<open>{"error": str(e)}\<close> when the file cannot be opened or read.
\<close>

definition parse_schema_file :: "filesystem \<Rightarrow> path \<Rightarrow> json" where
  "parse_schema_file fs file_path =
     (case fs_read fs file_path of
        Inr content \<Rightarrow> JObj [(''tables'', JObj []), (''raw_content'', JStr (take 1000 content))]
      | Inl e \<Rightarrow> JObj [(''error'', JStr e)])"

subsection \<open>Dependencies\<close>

text \<open>
  \<^verbatim>\<open>_extract_dependencies\<close>: the loop over the two section names extends the list
  \<^verbatim>\<open>deps\<close> by the keys of each section that the manifest has.
\<close>

fun extend_sections :: "json \<Rightarrow> string list \<Rightarrow> string list \<Rightarrow> exn + string list" where
  "extend_sections package_json [] deps = Inr deps"
| "extend_sections package_json (section # sections) deps =
     (case py_in section package_json of
        Inl e \<Rightarrow> Inl e
      | Inr False \<Rightarrow> extend_sections package_json sections deps
      | Inr True \<Rightarrow>
         (case py_getitem package_json section of
            Inl e \<Rightarrow> Inl e
          | Inr sec \<Rightarrow>
             (case py_keys sec of
                Inl e \<Rightarrow> Inl e
              | Inr ks \<Rightarrow> extend_sections package_json sections (deps @ ks))))"

definition extract_dependencies :: "json \<Rightarrow> exn + string list" where
  "extract_dependencies package_json =
     (if \<not> truthy package_json then Inr []
      else extend_sections package_json [''dependencies'', ''devDependencies''] [])"

section \<open>Application profiler\<close>

text \<open>
  \<^verbatim>\<open>_determine_application_type\<close>, with \<^verbatim>\<open>path / "x"\<close> written \<open>path @ [''x'']\<close>. The
  parameter \<^verbatim>\<open>name\<close> of the profiler's methods is written \<open>app_name\<close>, the field of
  the record keeping the name.
\<close>

definition determine_application_type :: "filesystem \<Rightarrow> string \<Rightarrow> path \<Rightarrow> ApplicationType" where
  "determine_application_type fs app_name path =
     (if app_name = ''ParadoxResolver'' then PYTHON_STREAMLIT
      else if fs_exists fs (path @ [''package.json''])
      then (if fs_exists fs (path @ [''src'', ''components''])
               \<or> fs_exists fs (path @ [''client'', ''src''])
            then REACT_FRONTEND
            else NODEJS_TYPESCRIPT)
      else NODEJS_TYPESCRIPT)"

definition extract_api_endpoints :: "filesystem \<Rightarrow> string \<Rightarrow> path \<Rightarrow> string list" where
  "extract_api_endpoints fs app_name path =
     foldl (\<lambda>endpoints pattern.
              foldl (\<lambda>endpoints file_path.
                       if fs_is_file fs file_path
                       then endpoints @ parse_routes_from_file fs file_path
                       else endpoints)
                endpoints (fs_glob fs path pattern))
       [] [''server/**/*.ts'', ''server/**/*.js'', ''src/**/*.ts'', ''src/**/*.js'']"

definition extract_database_schema :: "filesystem \<Rightarrow> string \<Rightarrow> path \<Rightarrow> (string \<times> json) list" where
  "extract_database_schema fs app_name path =
     foldl (\<lambda>schema pattern.
              foldl (\<lambda>schema file_path.
                       if fs_is_file fs file_path
                       then dict_set schema (path_str file_path) (parse_schema_file fs file_path)
                       else schema)
                schema (fs_glob fs path pattern))
       [] [''**/schema.ts'', ''**/schema.sql'', ''**/migrations/**'']"

text \<open>
  \<^verbatim>\<open>_analyze_application\<close>. The manifest is loaded with no exception handler around
  \<^verbatim>\<open>open\<close> and \<^verbatim>\<open>json.load\<close>; the arguments of the constructor are evaluated in
  the order written, the port before the dependencies.
\<close>

definition analyze_application :: "filesystem \<Rightarrow> string \<Rightarrow> path \<Rightarrow> exn + ApplicationMetadata" where
  "analyze_application fs app_name path =
     (let app_type = determine_application_type fs app_name path;
          loaded = (if app_type \<in> set [NODEJS_TYPESCRIPT, REACT_FRONTEND]
                    then (if fs_exists fs (path @ [''package.json''])
                          then fs_json_load fs (path @ [''package.json''])
                          else Inr JNull)
                    else Inr JNull)
      in case loaded of
           Inl e \<Rightarrow> Inl e
         | Inr package_json \<Rightarrow>
            (let endpoints = extract_api_endpoints fs app_name path;
                 db_schema = extract_database_schema fs app_name path
             in case extract_port package_json of
                  Inl e \<Rightarrow> Inl e
                | Inr p \<Rightarrow>
                   (case extract_dependencies package_json of
                      Inl e \<Rightarrow> Inl e
                    | Inr deps \<Rightarrow>
                        Inr \<lparr>name = app_name, type = app_type, base_path = path, port = p,
                             api_endpoints = endpoints, database_schema = db_schema,
                             dependencies = deps, integration_points = []\<rparr>)))"

section \<open>Workspace discovery\<close>

type_synonym registry = "(string \<times> ApplicationMetadata) list"

definition app_directories :: "string list" where
  "app_directories =
     [''HumanityFrontier'', ''SpaceAgent'', ''MusicPortal'', ''ParadoxResolver'',
      ''ConsciousnessProbe'', ''QuantumSingularity'', ''pitchfork-echo-studio'', ''SpaceChild'']"

text \<open>
  \<^verbatim>\<open>discover_applications\<close>: the loop over the candidate names, on the dict
  \<^verbatim>\<open>self.applications\<close>; \<^verbatim>\<open>workspace_path.parent\<close> of an absolute path drops the last
  component.
\<close>

fun discover_loop :: "filesystem \<Rightarrow> path \<Rightarrow> string list \<Rightarrow> registry \<Rightarrow> exn + registry" where
  "discover_loop fs workspace_path [] applications = Inr applications"
| "discover_loop fs workspace_path (app_name # names) applications =
     (let app_path = butlast workspace_path @ [app_name]
      in if fs_exists fs app_path
         then (case analyze_application fs app_name app_path of
                 Inl e \<Rightarrow> Inl e
               | Inr metadata \<Rightarrow>
                   discover_loop fs workspace_path names (dict_set applications app_name metadata))
         else discover_loop fs workspace_path names applications)"

definition discover_applications :: "filesystem \<Rightarrow> path \<Rightarrow> exn + registry" where
  "discover_applications fs workspace_path = discover_loop fs workspace_path app_directories []"

section \<open>Protocol selection\<close>

text \<open>
  \<^verbatim>\<open>ConnectorOrchestrator._determine_protocols\<close>: three statements in sequence, each
  appending to the list \<^verbatim>\<open>protocols\<close>. A non-empty Python list is true.
\<close>

definition determine_protocols ::
  "ApplicationMetadata \<Rightarrow> ApplicationMetadata \<Rightarrow> ConnectionProtocol list" where
  "determine_protocols source target =
     (let protocols = [];
          protocols = (if api_endpoints source \<noteq> [] \<or> api_endpoints target \<noteq> []
                       then protocols @ [REST_API] else protocols);
          protocols = (if type source \<in> set [REACT_FRONTEND, NODEJS_TYPESCRIPT]
                       then protocols @ [WEBSOCKET] else protocols);
          protocols = (if protocols = [] then protocols @ [REST_API] else protocols)
      in protocols)"

section \<open>Pairing planner\<close>

text \<open>
  \<^verbatim>\<open>_create_connector_config\<close>: \<^verbatim>\<open>self.applications[k]\<close> raises \<^verbatim>\<open>KeyError\<close> for a
  name that is not in the registry. The field \<open>error_handling\<close> keeps its default.
\<close>

definition create_connector_config :: "registry \<Rightarrow> string \<Rightarrow> string \<Rightarrow> exn + ConnectorConfig" where
  "create_connector_config applications source target =
     (case map_of applications source of
        None \<Rightarrow> Inl (KeyError source)
      | Some source_meta \<Rightarrow>
         (case map_of applications target of
            None \<Rightarrow> Inl (KeyError target)
          | Some target_meta \<Rightarrow>
              Inr \<lparr>source_app = source, target_app = target,
                   protocols = determine_protocols source_meta target_meta,
                   data_mappings = [], transformation_rules = [],
                   sync_frequency = ''real_time'', error_handling = []\<rparr>))"

text \<open>
  \<^verbatim>\<open>generate_all_connectors\<close>: the outer loop takes each name of the registry in key
  order, the inner loop the names after it (\<^verbatim>\<open>app_names[i+1:]\<close>). The generation agent
  is the parameter \<open>generate_connector\<close>, called on each configuration in turn; it returns
  the path of the connector written or raises, and an exception ends the loops. With
  \<open>Inr\<close> for it the function returns the configurations planned.
\<close>

fun targets_loop ::
  "(ConnectorConfig \<Rightarrow> exn + 'a) \<Rightarrow> registry \<Rightarrow> string \<Rightarrow> string list \<Rightarrow> 'a list
     \<Rightarrow> exn + 'a list" where
  "targets_loop generate_connector applications source [] generated = Inr generated"
| "targets_loop generate_connector applications source (target # targets) generated =
     (if source \<noteq> target
      then (case create_connector_config applications source target of
              Inl e \<Rightarrow> Inl e
            | Inr config \<Rightarrow>
               (case generate_connector config of
                  Inl e \<Rightarrow> Inl e
                | Inr connector_path \<Rightarrow>
                    targets_loop generate_connector applications source targets
                      (generated @ [connector_path])))
      else targets_loop generate_connector applications source targets generated)"

fun sources_loop ::
  "(ConnectorConfig \<Rightarrow> exn + 'a) \<Rightarrow> registry \<Rightarrow> string list \<Rightarrow> 'a list
     \<Rightarrow> exn + 'a list" where
  "sources_loop generate_connector applications [] generated = Inr generated"
| "sources_loop generate_connector applications (source # app_names) generated =
     (case targets_loop generate_connector applications source app_names generated of
        Inl e \<Rightarrow> Inl e
      | Inr generated' \<Rightarrow> sources_loop generate_connector applications app_names generated')"

definition generate_all_connectors ::
  "(ConnectorConfig \<Rightarrow> exn + 'a) \<Rightarrow> registry \<Rightarrow> exn + 'a list" where
  "generate_all_connectors generate_connector applications =
     sources_loop generate_connector applications (map fst applications) []"

section \<open>Example inputs\<close>

text \<open>
  Two application records as discovery builds them for directories without server
  sources: the data application, whose kind comes from its name, and a script-runtime
  application.
\<close>

definition streamlit_app :: ApplicationMetadata where
  "streamlit_app =
     \<lparr>name = ''ParadoxResolver'', type = PYTHON_STREAMLIT,
      base_path = [''work'', ''ParadoxResolver''], port = None, api_endpoints = [],
      database_schema = [], dependencies = [], integration_points = []\<rparr>"

definition node_app :: ApplicationMetadata where
  "node_app =
     \<lparr>name = ''SpaceChild'', type = NODEJS_TYPESCRIPT,
      base_path = [''work'', ''SpaceChild''], port = None, api_endpoints = [],
      database_schema = [], dependencies = [], integration_points = []\<rparr>"

section \<open>Reference enumeration of pairs\<close>

text \<open>
  The pairs the planner is specified to enumerate: for each index \<open>i\<close>, the element at
  \<open>i\<close> with every element at an index \<open>j > i\<close>. \<open>pair_config\<close> abbreviates the
  configuration built for a pair of registry entries.
\<close>

fun upper_triangular_pairs :: "'a list \<Rightarrow> ('a \<times> 'a) list" where
  "upper_triangular_pairs [] = []"
| "upper_triangular_pairs (x # xs) = map (Pair x) xs @ upper_triangular_pairs xs"

abbreviation pair_config ::
  "(string \<times> ApplicationMetadata) \<times> (string \<times> ApplicationMetadata) \<Rightarrow> ConnectorConfig" where
  "pair_config \<equiv> \<lambda>((x, a), (y, b)).
     \<lparr>source_app = x, target_app = y, protocols = determine_protocols a b,
      data_mappings = [], transformation_rules = [], sync_frequency = ''real_time'',
      error_handling = []\<rparr>"

text \<open>A registry of three applications, in key order.\<close>

definition three_apps :: registry where
  "three_apps =
     [(''ParadoxResolver'', streamlit_app), (''SpaceChild'', node_app),
      (''MusicPortal'', node_app\<lparr>name := ''MusicPortal'', api_endpoints := [''/api/tracks'']\<rparr>)]"

section \<open>Example source texts\<close>

text \<open>
  Call sites as they occur in server sources; \<open>CHR 0x22\<close> is the double quote. The last
  two texts hold the same two calls in either order.
\<close>

definition text_router_put :: string where
  "text_router_put = ''router.put('' @ [CHR 0x22] @ ''/p'' @ [CHR 0x22] @ '')''"

definition text_router_delete :: string where
  "text_router_delete = ''router.delete('' @ [CHR 0x22] @ ''/p'' @ [CHR 0x22] @ '')''"

definition text_app_put :: string where
  "text_app_put = ''app.put('' @ [CHR 0x22] @ ''/p'' @ [CHR 0x22] @ '')''"

definition text_app_delete :: string where
  "text_app_delete = ''app.delete('' @ [CHR 0x22] @ ''/p'' @ [CHR 0x22] @ '')''"

definition text_get_then_post :: string where
  "text_get_then_post =
     ''app.get('' @ [CHR 0x22] @ ''/api/users'' @ [CHR 0x22] @ '', h); ''
     @ ''router.post('' @ [CHR 0x22] @ ''/api/orders'' @ [CHR 0x22] @ '', h);''"

definition text_post_then_get :: string where
  "text_post_then_get =
     ''router.post('' @ [CHR 0x22] @ ''/api/orders'' @ [CHR 0x22] @ '', h); ''
     @ ''app.get('' @ [CHR 0x22] @ ''/api/users'' @ [CHR 0x22] @ '', h);''"

text \<open>
  Two \<^verbatim>\<open>app.get\<close> calls, the second in single quotes, with a \<^verbatim>\<open>router.post\<close> call
  between them.
\<close>

definition text_two_gets :: string where
  "text_two_gets =
     ''app.get('' @ [CHR 0x22] @ ''/a'' @ [CHR 0x22] @ ''); ''
     @ ''router.post('' @ [CHR 0x22] @ ''/c'' @ [CHR 0x22] @ ''); ''
     @ ''app.get('' @ [CHR 0x27] @ ''/b'' @ [CHR 0x27] @ '');''"


section \<open>Declared names of a manifest section\<close>

text \<open>
  After the specification's words for the dependency extractor: the package names a
  manifest declares in one of its dependency sections, in the order declared; none when
  the manifest has no such section.
\<close>

definition declared_names :: "json \<Rightarrow> string \<Rightarrow> string list" where
  "declared_names manifest section =
     (case manifest of
        JObj m \<Rightarrow> (case map_of m section of Some (JObj d) \<Rightarrow> map fst d | _ \<Rightarrow> [])
      | _ \<Rightarrow> [])"

section \<open>Example manifests and file systems\<close>

text \<open>
  The manifest of the specification's example, and one that declares a package in
  both sections.
\<close>

definition manifest_express_jest :: json where
  "manifest_express_jest =
     JObj [(''dependencies'', JObj [(''express'', JStr ''1.0'')]),
           (''devDependencies'', JObj [(''jest'', JStr ''2.0'')])]"

definition manifest_typescript_twice :: json where
  "manifest_typescript_twice =
     JObj [(''dependencies'', JObj [(''express'', JStr ''1.0''), (''typescript'', JStr ''5.0'')]),
           (''devDependencies'', JObj [(''typescript'', JStr ''5.0'')])]"

text \<open>
  Three application directories under \<^verbatim>\<open>/work\<close>: one with a component directory and
  no manifest, one with both, and one whose manifest is not valid JSON, so that
  \<^verbatim>\<open>json.load\<close> raises \<^verbatim>\<open>JSONDecodeError\<close>.
\<close>

definition components_without_manifest :: filesystem where
  "components_without_manifest =
     \<lparr>fs_exists = (\<lambda>p. p \<in> set [[''work''], [''work'', ''SpaceAgent''],
                                  [''work'', ''SpaceAgent'', ''src''],
                                  [''work'', ''SpaceAgent'', ''src'', ''components'']]),
      fs_is_file = (\<lambda>p. False),
      fs_glob = (\<lambda>p pattern. []),
      fs_read = (\<lambda>p. Inl ''Is a directory''),
      fs_json_load = (\<lambda>p. Inl OSError)\<rparr>"

definition components_with_manifest :: filesystem where
  "components_with_manifest =
     \<lparr>fs_exists = (\<lambda>p. p \<in> set [[''work''], [''work'', ''SpaceAgent''],
                                  [''work'', ''SpaceAgent'', ''package.json''],
                                  [''work'', ''SpaceAgent'', ''src''],
                                  [''work'', ''SpaceAgent'', ''src'', ''components'']]),
      fs_is_file = (\<lambda>p. p = [''work'', ''SpaceAgent'', ''package.json'']),
      fs_glob = (\<lambda>p pattern. []),
      fs_read = (\<lambda>p. Inl ''Is a directory''),
      fs_json_load = (\<lambda>p. if p = [''work'', ''SpaceAgent'', ''package.json'']
                           then Inr manifest_express_jest else Inl OSError)\<rparr>"

definition malformed_manifest :: filesystem where
  "malformed_manifest =
     \<lparr>fs_exists = (\<lambda>p. p \<in> set [[''work''], [''work'', ''SpaceChild''],
                                  [''work'', ''SpaceChild'', ''package.json'']]),
      fs_is_file = (\<lambda>p. p = [''work'', ''SpaceChild'', ''package.json'']),
      fs_glob = (\<lambda>p pattern. []),
      fs_read = (\<lambda>p. if p = [''work'', ''SpaceChild'', ''package.json'']
                      then Inr ''{ dependencies: '' else Inl ''Is a directory''),
      fs_json_load = (\<lambda>p. if p = [''work'', ''SpaceChild'', ''package.json'']
                           then Inl JSONDecodeError else Inl OSError)\<rparr>"

section \<open>Properties of the protocol selector\<close>

lemma determine_protocols_cases:
  "determine_protocols s t =
     (if api_endpoints s \<noteq> [] \<or> api_endpoints t \<noteq> []
      then (if type s = REACT_FRONTEND \<or> type s = NODEJS_TYPESCRIPT
            then [REST_API, WEBSOCKET] else [REST_API])
      else (if type s = REACT_FRONTEND \<or> type s = NODEJS_TYPESCRIPT
            then [WEBSOCKET] else [REST_API]))"
  by (simp add: determine_protocols_def Let_def)

text \<open>
  C1. The claim: the selector returns the same set of protocols for \<open>(a, b)\<close> and for
  \<open>(b, a)\<close>, with WebSocket whenever either kind is a live archetype. The code tests the
  kind of the source only. For the data application and a script-runtime application,
  neither with endpoints, the selector returns REST-API one way round and WebSocket the
  other way round.
\<close>

theorem determine_protocols_asymmetric:
  "determine_protocols streamlit_app node_app = [REST_API]
   \<and> determine_protocols node_app streamlit_app = [WEBSOCKET]
   \<and> set (determine_protocols streamlit_app node_app)
       \<noteq> set (determine_protocols node_app streamlit_app)"
  by (simp add: determine_protocols_cases streamlit_app_def node_app_def)

theorem determine_protocols_asymmetric_witness:
  "determine_protocols streamlit_app node_app \<noteq> determine_protocols node_app streamlit_app"
  using determine_protocols_asymmetric by simp

text \<open>
  C3. For every pair of application records the selector returns a sequence that is
  not empty and has no duplicates; when neither record has endpoints and neither kind
  is a live archetype (no rule of the union applies), the result is the one-element
  sequence REST-API.
\<close>

theorem determine_protocols_nonempty_distinct:
  "determine_protocols a b \<noteq> []
   \<and> distinct (determine_protocols a b)
   \<and> (api_endpoints a = [] \<and> api_endpoints b = []
        \<and> type a \<notin> {REACT_FRONTEND, NODEJS_TYPESCRIPT}
        \<and> type b \<notin> {REACT_FRONTEND, NODEJS_TYPESCRIPT}
       \<longrightarrow> determine_protocols a b = [REST_API])"
  by (simp add: determine_protocols_cases)

theorem determine_protocols_nonempty_distinct_witness:
  "api_endpoints streamlit_app = []
   \<and> api_endpoints (streamlit_app\<lparr>type := EXPRESS_BACKEND\<rparr>) = []
   \<and> type streamlit_app \<notin> {REACT_FRONTEND, NODEJS_TYPESCRIPT}
   \<and> type (streamlit_app\<lparr>type := EXPRESS_BACKEND\<rparr>) \<notin> {REACT_FRONTEND, NODEJS_TYPESCRIPT}
   \<and> determine_protocols streamlit_app (streamlit_app\<lparr>type := EXPRESS_BACKEND\<rparr>) = [REST_API]
   \<and> determine_protocols streamlit_app (streamlit_app\<lparr>type := EXPRESS_BACKEND\<rparr>) \<noteq> []
   \<and> distinct (determine_protocols streamlit_app (streamlit_app\<lparr>type := EXPRESS_BACKEND\<rparr>))"
  using determine_protocols_nonempty_distinct
          [of streamlit_app "streamlit_app\<lparr>type := EXPRESS_BACKEND\<rparr>"]
  by (simp add: streamlit_app_def)

text \<open>
  C10. Every protocol in the selector's output is REST-API or WebSocket; GraphQL,
  message-queue and direct-function-call, though members of the enumeration, are never
  produced.
\<close>

theorem determine_protocols_only_rest_websocket:
  "set (determine_protocols a b) \<subseteq> {REST_API, WEBSOCKET}
   \<and> GRAPHQL \<notin> set (determine_protocols a b)
   \<and> MESSAGE_QUEUE \<notin> set (determine_protocols a b)
   \<and> DIRECT_FUNCTION \<notin> set (determine_protocols a b)"
  by (simp add: determine_protocols_cases)

theorem determine_protocols_only_rest_websocket_witness:
  "set (determine_protocols node_app streamlit_app) \<subseteq> {REST_API, WEBSOCKET}
   \<and> determine_protocols node_app streamlit_app = [WEBSOCKET]
   \<and> GRAPHQL \<notin> set (determine_protocols node_app streamlit_app)"
  using determine_protocols_only_rest_websocket [of node_app streamlit_app]
  by (simp add: determine_protocols_cases node_app_def streamlit_app_def)

section \<open>Properties of the pairing planner\<close>

lemma create_connector_config_entries:
  assumes "distinct (map fst R)" "(x, a) \<in> set R" "(y, b) \<in> set R"
  shows "create_connector_config R x y = Inr (pair_config ((x, a), (y, b)))"
  using assms by (simp add: create_connector_config_def)

lemma targets_loop_entries:
  assumes "distinct (map fst R)" "(x, a) \<in> set R"
  shows "set es \<subseteq> set R \<Longrightarrow> x \<notin> fst ` set es \<Longrightarrow>
         targets_loop (\<lambda>c. Inr (g c)) R x (map fst es) acc
           = Inr (acc @ map (\<lambda>e. g (pair_config ((x, a), e))) es)"
proof (induction es arbitrary: acc)
  case Nil
  then show ?case by simp
next
  case (Cons e es)
  obtain y b where e: "e = (y, b)" by (cases e)
  from Cons.prems e have yb: "(y, b) \<in> set R" and neq: "x \<noteq> y" by auto
  have cfg: "create_connector_config R x y = Inr (pair_config ((x, a), (y, b)))"
    by (rule create_connector_config_entries [OF assms yb])
  from Cons.prems have "set es \<subseteq> set R" "x \<notin> fst ` set es" by auto
  from Cons.IH [OF this] show ?case
    by (simp add: e neq cfg)
qed

lemma sources_loop_entries:
  assumes "distinct (map fst R)"
  shows "set es \<subseteq> set R \<Longrightarrow> distinct (map fst es) \<Longrightarrow>
         sources_loop (\<lambda>c. Inr (g c)) R (map fst es) acc
           = Inr (acc @ map (\<lambda>p. g (pair_config p)) (upper_triangular_pairs es))"
proof (induction es arbitrary: acc)
  case Nil
  then show ?case by simp
next
  case (Cons e es)
  obtain x a where e: "e = (x, a)" by (cases e)
  from Cons.prems e have xa: "(x, a) \<in> set R" and sub: "set es \<subseteq> set R"
    and notin: "x \<notin> fst ` set es" and dist: "distinct (map fst es)" by auto
  have inner: "targets_loop (\<lambda>c. Inr (g c)) R x (map fst es) acc
      = Inr (acc @ map (\<lambda>e. g (pair_config ((x, a), e))) es)"
    by (rule targets_loop_entries [OF assms xa sub notin])
  show ?case
    by (simp add: e inner Cons.IH [OF sub dist] comp_def)
qed

lemma generate_all_connectors_entries:
  assumes "distinct (map fst R)"
  shows "generate_all_connectors (\<lambda>c. Inr (g c)) R
           = Inr (map (\<lambda>p. g (pair_config p)) (upper_triangular_pairs R))"
  using sources_loop_entries [OF assms subset_refl assms, of g "[]"]
  by (simp add: generate_all_connectors_def)

lemma twice_length_upper_triangular_pairs:
  "2 * length (upper_triangular_pairs xs) = length xs * (length xs - 1)"
proof (induction xs)
  case Nil
  then show ?case by simp
next
  case (Cons x xs)
  have "length xs \<le> length xs * length xs" by (cases xs) simp_all
  with Cons.IH show ?case by (simp add: algebra_simps)
qed

lemma length_upper_triangular_pairs:
  "length (upper_triangular_pairs xs) = length xs * (length xs - 1) div 2"
  using twice_length_upper_triangular_pairs [of xs] by simp

lemma set_upper_triangular_pairs:
  "(x, y) \<in> set (upper_triangular_pairs xs) \<Longrightarrow> x \<in> set xs \<and> y \<in> set xs"
  by (induction xs) auto

lemma upper_triangular_pairs_neq:
  "distinct xs \<Longrightarrow> (x, y) \<in> set (upper_triangular_pairs xs) \<Longrightarrow> x \<noteq> y"
  by (induction xs) (auto dest: set_upper_triangular_pairs)

lemma upper_triangular_pairs_complete:
  "x \<in> set xs \<Longrightarrow> y \<in> set xs \<Longrightarrow> x \<noteq> y \<Longrightarrow>
   (x, y) \<in> set (upper_triangular_pairs xs) \<or> (y, x) \<in> set (upper_triangular_pairs xs)"
  by (induction xs) auto

lemma upper_triangular_pairs_unordered_distinct:
  "distinct xs \<Longrightarrow> distinct (map (\<lambda>(x, y). {x, y}) (upper_triangular_pairs xs))"
proof (induction xs)
  case Nil
  then show ?case by simp
next
  case (Cons z zs)
  have new: "distinct (map (\<lambda>(x, y). {x, y}) (map (Pair z) zs))"
    using Cons.prems by (auto simp: distinct_map inj_on_def doubleton_eq_iff)
  have sep: "(\<lambda>y. {z, y}) ` set zs
      \<inter> (\<lambda>(x, y). {x, y}) ` set (upper_triangular_pairs zs) = {}"
    using Cons.prems by (auto simp: doubleton_eq_iff dest: set_upper_triangular_pairs)
  from Cons new sep show ?case by (simp add: image_image)
qed

lemma upper_triangular_pairs_map:
  "upper_triangular_pairs (map f xs) = map (map_prod f f) (upper_triangular_pairs xs)"
  by (induction xs) auto

text \<open>
  C2. For every registry (a dict, so its names are pairwise distinct) planning returns
  exactly \<open>|R| * (|R| - 1) div 2\<close> connector specifications: no specification pairs a
  name with itself, no unordered pair of names is produced twice, and every unordered
  pair of distinct names of the registry is produced. A generation agent that does not
  raise is called once per specification, in the same order.
\<close>

theorem generate_all_connectors_count:
  assumes "distinct (map fst R)"
  shows "\<exists>cs. generate_all_connectors Inr R = Inr cs
           \<and> generate_all_connectors (\<lambda>c. Inr (g c)) R = Inr (map g cs)
           \<and> length cs = length R * (length R - 1) div 2
           \<and> (\<forall>c \<in> set cs. source_app c \<in> fst ` set R \<and> target_app c \<in> fst ` set R
                 \<and> source_app c \<noteq> target_app c)
           \<and> distinct (map (\<lambda>c. {source_app c, target_app c}) cs)
           \<and> (\<forall>x \<in> fst ` set R. \<forall>y \<in> fst ` set R. x \<noteq> y \<longrightarrow>
                 (\<exists>c \<in> set cs. {source_app c, target_app c} = {x, y}))"
proof -
  define cs where "cs = map pair_config (upper_triangular_pairs R)"
  have names: "map (\<lambda>c. (source_app c, target_app c)) cs = upper_triangular_pairs (map fst R)"
    by (simp add: cs_def upper_triangular_pairs_map comp_def split_def map_prod_def)
  have in_names: "(source_app c, target_app c) \<in> set (upper_triangular_pairs (map fst R))"
    if "c \<in> set cs" for c
    using that names [symmetric] by (simp del: upper_triangular_pairs.simps)
  have run: "generate_all_connectors Inr R = Inr cs"
    by (simp add: generate_all_connectors_entries [OF assms] cs_def)
  have run_g: "generate_all_connectors (\<lambda>c. Inr (g c)) R = Inr (map g cs)"
    by (simp add: generate_all_connectors_entries [OF assms] cs_def comp_def)
  have len: "length cs = length R * (length R - 1) div 2"
    by (simp add: cs_def length_upper_triangular_pairs)
  have no_self: "\<forall>c \<in> set cs. source_app c \<in> fst ` set R \<and> target_app c \<in> fst ` set R
      \<and> source_app c \<noteq> target_app c"
  proof
    fix c assume "c \<in> set cs"
    from in_names [OF this] show "source_app c \<in> fst ` set R \<and> target_app c \<in> fst ` set R
        \<and> source_app c \<noteq> target_app c"
      using set_upper_triangular_pairs [of "source_app c" "target_app c" "map fst R"]
        upper_triangular_pairs_neq [OF assms, of "source_app c" "target_app c"]
      by simp
  qed
  have "map (\<lambda>c. {source_app c, target_app c}) cs
      = map (\<lambda>(x, y). {x, y}) (map (\<lambda>c. (source_app c, target_app c)) cs)"
    by (simp add: comp_def)
  then have dist: "distinct (map (\<lambda>c. {source_app c, target_app c}) cs)"
    using upper_triangular_pairs_unordered_distinct [OF assms] by (simp only: names)
  have all: "\<forall>x \<in> fst ` set R. \<forall>y \<in> fst ` set R. x \<noteq> y \<longrightarrow>
      (\<exists>c \<in> set cs. {source_app c, target_app c} = {x, y})"
  proof (intro ballI impI)
    fix x y assume "x \<in> fst ` set R" "y \<in> fst ` set R" "x \<noteq> y"
    then have "(x, y) \<in> set (upper_triangular_pairs (map fst R))
        \<or> (y, x) \<in> set (upper_triangular_pairs (map fst R))"
      using upper_triangular_pairs_complete [of x "map fst R" y] by simp
    then have "(x, y) \<in> (\<lambda>c. (source_app c, target_app c)) ` set cs
        \<or> (y, x) \<in> (\<lambda>c. (source_app c, target_app c)) ` set cs"
      by (simp only: names [symmetric] set_map)
    then show "\<exists>c \<in> set cs. {source_app c, target_app c} = {x, y}"
      by (auto simp: doubleton_eq_iff)
  qed
  from run run_g len no_self dist all show ?thesis by blast
qed

theorem generate_all_connectors_count_witness:
  "distinct (map fst three_apps)
   \<and> (\<exists>cs. generate_all_connectors Inr three_apps = Inr cs \<and> length cs = 3
         \<and> map (\<lambda>c. (source_app c, target_app c)) cs
            = [(''ParadoxResolver'', ''SpaceChild''), (''ParadoxResolver'', ''MusicPortal''),
               (''SpaceChild'', ''MusicPortal'')])"
proof -
  have d: "distinct (map fst three_apps)" by (simp add: three_apps_def)
  have e: "generate_all_connectors Inr three_apps
      = Inr (map pair_config (upper_triangular_pairs three_apps))"
    by (simp add: generate_all_connectors_def three_apps_def create_connector_config_def)
  from generate_all_connectors_count [OF d, of "\<lambda>c. c"] d e show ?thesis
    by (simp add: three_apps_def)
qed

text \<open>
  C9, as amended. The specifications planned are, in order, one per pair of entries
  \<open>(x, a)\<close>, \<open>(y, b)\<close> of the upper-triangular enumeration, each with source \<open>x\<close>,
  target \<open>y\<close>, the protocols the selector returns for \<open>a\<close> and \<open>b\<close>, empty data
  mappings, empty transformation rules and the synchronisation descriptor
  \<^verbatim>\<open>"real_time"\<close> (the claim has \<^verbatim>\<open>"continuous"\<close>).
\<close>

theorem generate_all_connectors_configs:
  assumes "distinct (map fst R)"
  shows "generate_all_connectors Inr R
           = Inr (map (\<lambda>((x, a), (y, b)).
                         \<lparr>source_app = x, target_app = y,
                          protocols = determine_protocols a b,
                          data_mappings = [], transformation_rules = [],
                          sync_frequency = ''real_time'', error_handling = []\<rparr>)
                    (upper_triangular_pairs R))"
  by (simp add: generate_all_connectors_entries [OF assms])

theorem generate_all_connectors_configs_witness:
  "distinct (map fst (take 2 three_apps))
   \<and> generate_all_connectors Inr (take 2 three_apps)
       = Inr [\<lparr>source_app = ''ParadoxResolver'', target_app = ''SpaceChild'',
               protocols = [REST_API], data_mappings = [], transformation_rules = [],
               sync_frequency = ''real_time'', error_handling = []\<rparr>]"
proof -
  have d: "distinct (map fst (take 2 three_apps))" by (simp add: three_apps_def)
  from generate_all_connectors_configs [OF d] d show ?thesis
    by (simp add: three_apps_def determine_protocols_def streamlit_app_def node_app_def)
qed

text \<open>
  The synchronisation descriptor of a planned specification is not \<^verbatim>\<open>"continuous"\<close>.
\<close>

theorem sync_frequency_not_continuous:
  "map_sum (\<lambda>e. e) (map sync_frequency) (generate_all_connectors Inr (take 2 three_apps))
     = Inr [''real_time'']
   \<and> ''real_time'' \<noteq> ''continuous''"
  by (simp add: generate_all_connectors_def three_apps_def create_connector_config_def)

section \<open>Properties of the route extractor\<close>

lemma strip_prefix_Some: "strip_prefix lit s = Some r \<Longrightarrow> s = lit @ r"
  by (induction lit s rule: strip_prefix.induct) (auto split: if_splits)

lemma match_route_Some:
  assumes "match_route lit s = Some (g, rest)"
  shows "\<exists>q q'. s = lit @ q # g @ q' # rest \<and> is_quote q \<and> is_quote q' \<and> g \<noteq> []
           \<and> (\<forall>c \<in> set g. \<not> is_quote c)"
proof -
  from assms obtain q r q' where sp: "strip_prefix lit s = Some (q # r)" and q: "is_quote q"
    and g: "g = takeWhile (\<lambda>c. \<not> is_quote c) r" "g \<noteq> []"
    and d: "dropWhile (\<lambda>c. \<not> is_quote c) r = q' # rest"
    by (auto simp: match_route_def split: option.splits list.splits if_splits)
  have "r = g @ q' # rest"
    using takeWhile_dropWhile_id [of "\<lambda>c. \<not> is_quote c" r] g d by simp
  moreover have "is_quote q'"
    using hd_dropWhile [of "\<lambda>c. \<not> is_quote c" r] d by simp
  moreover have "\<forall>c \<in> set g. \<not> is_quote c"
    using g by (auto dest: set_takeWhileD)
  ultimately show ?thesis using strip_prefix_Some [OF sp] q g by auto
qed

lemma match_route_rest:
  assumes "match_route lit s = Some (g, rest)"
  shows "length rest < length s \<and> rest = drop (length s - length rest) s"
  using match_route_Some [OF assms] by auto

lemma finditer_positions:
  "(i, g) \<in> set (finditer lit pos s) \<Longrightarrow>
     pos \<le> i \<and> i < pos + length s
     \<and> (\<exists>rest. match_route lit (drop (i - pos) s) = Some (g, rest))"
proof (induction lit pos s rule: finditer.induct)
  case (1 lit pos s)
  show ?case
  proof (cases "match_route lit s")
    case None
    then have unf: "finditer lit pos s
        = (case s of [] \<Rightarrow> [] | c # cs \<Rightarrow> finditer lit (Suc pos) cs)"
      by (simp add: finditer.simps [of lit pos s])
    with "1.prems" obtain c cs where s: "s = c # cs"
      and mem: "(i, g) \<in> set (finditer lit (Suc pos) cs)"
      by (cases s) auto
    from "1.IH"(1) [OF None s mem] have "Suc pos \<le> i" "i < Suc pos + length cs"
      and m: "\<exists>rest. match_route lit (drop (i - Suc pos) cs) = Some (g, rest)" by auto
    moreover from \<open>Suc pos \<le> i\<close> have "i - pos = Suc (i - Suc pos)" by arith
    then have "drop (i - pos) s = drop (i - Suc pos) cs"
      by (simp add: s)
    ultimately show ?thesis by (simp add: s)
  next
    case (Some m)
    obtain g' rest where m: "m = (g', rest)" by (cases m)
    note r = match_route_rest [OF Some [unfolded m]]
    have unf: "finditer lit pos s
        = (pos, g') # finditer lit (pos + (length s - length rest)) rest"
      using Some m by (simp add: finditer.simps [of lit pos s])
    with "1.prems" consider "(i, g) = (pos, g')"
      | "(i, g) \<in> set (finditer lit (pos + (length s - length rest)) rest)"
      by auto
    then show ?thesis
    proof cases
      case 1
      with Some m r show ?thesis by auto
    next
      case 2
      let ?k = "length s - length rest"
      from "1.IH"(2) [OF Some m [symmetric] 2]
      have b: "pos + ?k \<le> i" "i < pos + ?k + length rest"
        and mm: "\<exists>rest'. match_route lit (drop (i - (pos + ?k)) rest) = Some (g, rest')" by auto
      have "drop (i - pos) s = drop (i - (pos + ?k)) (drop ?k s)"
        using b by simp
      also have "\<dots> = drop (i - (pos + ?k)) rest" using r by simp
      finally show ?thesis using b mm r by auto
    qed
  qed
qed

lemma finditer_sorted: "sorted_wrt (<) (map fst (finditer lit pos s))"
proof (induction lit pos s rule: finditer.induct)
  case (1 lit pos s)
  show ?case
  proof (cases "match_route lit s")
    case None
    then have unf: "finditer lit pos s
        = (case s of [] \<Rightarrow> [] | c # cs \<Rightarrow> finditer lit (Suc pos) cs)"
      by (simp add: finditer.simps [of lit pos s])
    with "1.IH"(1) [OF None] show ?thesis
      by (cases s) auto
  next
    case (Some m)
    obtain g' rest where m: "m = (g', rest)" by (cases m)
    note r = match_route_rest [OF Some [unfolded m]]
    have "pos < i" if "(i, g) \<in> set (finditer lit (pos + (length s - length rest)) rest)" for i g
      using finditer_positions [OF that] r by auto
    moreover have unf: "finditer lit pos s
        = (pos, g') # finditer lit (pos + (length s - length rest)) rest"
      using Some m by (simp add: finditer.simps [of lit pos s])
    ultimately show ?thesis
      using "1.IH"(2) [OF Some m [symmetric]] by auto
  qed
qed

lemma match_route_span:
  assumes "match_route lit s = Some (g, rest)"
  shows "length s = length lit + length g + 2 + length rest"
  using match_route_Some [OF assms] by auto

lemma finditer_apart:
  "sorted_wrt (\<lambda>(i, g) (j, h). i + length lit + length g + 2 \<le> j) (finditer lit pos s)"
proof (induction lit pos s rule: finditer.induct)
  case (1 lit pos s)
  show ?case
  proof (cases "match_route lit s")
    case None
    then have unf: "finditer lit pos s
        = (case s of [] \<Rightarrow> [] | c # cs \<Rightarrow> finditer lit (Suc pos) cs)"
      by (simp add: finditer.simps [of lit pos s])
    with "1.IH"(1) [OF None] show ?thesis
      by (cases s) auto
  next
    case (Some m)
    obtain g' rest where m: "m = (g', rest)" by (cases m)
    note sp = match_route_span [OF Some [unfolded m]]
    have k: "pos + (length s - length rest) = pos + length lit + length g' + 2"
      using sp by simp
    have "pos + length lit + length g' + 2 \<le> i"
      if "(i, g) \<in> set (finditer lit (pos + (length s - length rest)) rest)" for i g
      using finditer_positions [OF that] k by simp
    moreover have unf: "finditer lit pos s
        = (pos, g') # finditer lit (pos + (length s - length rest)) rest"
      using Some m by (simp add: finditer.simps [of lit pos s])
    ultimately show ?thesis
      using "1.IH"(2) [OF Some m [symmetric]] by auto
  qed
qed

lemma finditer_complete:
  "j < length s \<Longrightarrow> match_route lit (drop j s) = Some (h, r) \<Longrightarrow>
     (pos + j, h) \<in> set (finditer lit pos s)
     \<or> (\<exists>(i, g) \<in> set (finditer lit pos s).
           i < pos + j \<and> pos + j < i + length lit + length g + 2)"
proof (induction lit pos s arbitrary: j rule: finditer.induct)
  case (1 lit pos s)
  show ?case
  proof (cases "match_route lit s")
    case None
    then have unf: "finditer lit pos s
        = (case s of [] \<Rightarrow> [] | c # cs \<Rightarrow> finditer lit (Suc pos) cs)"
      by (simp add: finditer.simps [of lit pos s])
    from "1.prems" obtain c cs where s: "s = c # cs" by (cases s) auto
    from "1.prems" None obtain j' where j: "j = Suc j'" by (cases j) auto
    from "1.prems" have "j' < length cs" "match_route lit (drop j' cs) = Some (h, r)"
      by (simp_all add: s j)
    from "1.IH"(1) [OF None s this]
    have "(Suc pos + j', h) \<in> set (finditer lit (Suc pos) cs)
        \<or> (\<exists>(i, g) \<in> set (finditer lit (Suc pos) cs).
              i < Suc pos + j' \<and> Suc pos + j' < i + length lit + length g + 2)" .
    moreover have "finditer lit pos s = finditer lit (Suc pos) cs"
      using unf by (simp add: s)
    ultimately show ?thesis by (simp add: j)
  next
    case (Some m)
    obtain g' rest where m: "m = (g', rest)" by (cases m)
    note sp = match_route_span [OF Some [unfolded m]]
    note r = match_route_rest [OF Some [unfolded m]]
    let ?k = "length s - length rest"
    have k: "?k = length lit + length g' + 2" using sp by simp
    have unf: "finditer lit pos s = (pos, g') # finditer lit (pos + ?k) rest"
      using Some m by (simp add: finditer.simps [of lit pos s])
    consider "j = 0" | "0 < j" "j < ?k" | "?k \<le> j" by linarith
    then show ?thesis
    proof cases
      case 1
      with "1.prems" Some m have "h = g'" by simp
      with 1 show ?thesis by (simp add: unf)
    next
      case 2
      then show ?thesis by (simp add: unf k)
    next
      case 3
      have "drop j s = drop (j - ?k) (drop ?k s)" using 3 by simp
      also have "\<dots> = drop (j - ?k) rest" using r by simp
      finally have d: "match_route lit (drop (j - ?k) rest) = Some (h, r)"
        using "1.prems" by simp
      have l: "j - ?k < length rest" using "1.prems" 3 sp by simp
      have e: "pos + ?k + (j - ?k) = pos + j" using 3 by simp
      from "1.IH"(2) [OF Some m [symmetric] l d] show ?thesis
        by (auto simp: unf e)
    qed
  qed
qed

lemma parse_routes_unfold:
  "parse_routes content =
     findall ''app.get('' content @ findall ''app.post('' content
     @ findall ''app.put('' content @ findall ''app.delete('' content
     @ findall ''router.get('' content @ findall ''router.post('' content"
  by (simp add: parse_routes_def express_patterns_def)

text \<open>
  C4. The claim: a call \<^verbatim>\<open>router.put("/p")\<close> or \<^verbatim>\<open>router.delete("/p")\<close> yields its path
  as \<^verbatim>\<open>app.put("/p")\<close> and \<^verbatim>\<open>app.delete("/p")\<close> do. The list of patterns has
  \<^verbatim>\<open>get\<close>, \<^verbatim>\<open>post\<close>, \<^verbatim>\<open>put\<close> and \<^verbatim>\<open>delete\<close> for \<^verbatim>\<open>app\<close> but only \<^verbatim>\<open>get\<close> and
  \<^verbatim>\<open>post\<close> for \<^verbatim>\<open>router\<close>: the two router calls yield nothing.
\<close>

theorem parse_routes_router_put_delete:
  "parse_routes text_router_put = [] \<and> parse_routes text_router_delete = []
   \<and> parse_routes text_app_put = [''/p''] \<and> parse_routes text_app_delete = [''/p'']"
  by code_simp

theorem parse_routes_router_put_delete_witness:
  "parse_routes text_router_put \<noteq> parse_routes text_app_put"
  using parse_routes_router_put_delete by simp

text \<open>
  C5, as amended. The extractor returns the paths grouped by pattern, the groups in the
  order of the pattern list (\<^verbatim>\<open>app.get\<close>, \<^verbatim>\<open>app.post\<close>, \<^verbatim>\<open>app.put\<close>, \<^verbatim>\<open>app.delete\<close>,
  \<^verbatim>\<open>router.get\<close>, \<^verbatim>\<open>router.post\<close>); within a group the paths are those of the call
  sites of that pattern in the order they occur in the text. For each pattern: the
  offsets of the matches returned increase strictly and no match begins before the one
  ahead of it has ended; at each offset returned the pattern matches the text with that
  path as its group; and every offset of the text where the pattern matches is
  returned with its path, unless it lies inside a match returned from an earlier
  offset. So no call site is left out or returned twice.
\<close>

theorem parse_routes_grouped_by_pattern:
  "parse_routes content =
     findall ''app.get('' content @ findall ''app.post('' content
     @ findall ''app.put('' content @ findall ''app.delete('' content
     @ findall ''router.get('' content @ findall ''router.post('' content
   \<and> (\<forall>lit. findall lit content = map snd (finditer lit 0 content)
          \<and> sorted_wrt (<) (map fst (finditer lit 0 content))
          \<and> sorted_wrt (\<lambda>(i, g) (j, h). i + length lit + length g + 2 \<le> j)
                (finditer lit 0 content)
          \<and> (\<forall>(i, g) \<in> set (finditer lit 0 content).
                i < length content
                \<and> (\<exists>rest. match_route lit (drop i content) = Some (g, rest)))
          \<and> (\<forall>j h rest. j < length content
                \<and> match_route lit (drop j content) = Some (h, rest) \<longrightarrow>
                (j, h) \<in> set (finditer lit 0 content)
                \<or> (\<exists>(i, g) \<in> set (finditer lit 0 content).
                      i < j \<and> j < i + length lit + length g + 2)))"
proof -
  have sound: "i < length content
      \<and> (\<exists>rest. match_route lit (drop i content) = Some (g, rest))"
    if "(i, g) \<in> set (finditer lit 0 content)" for lit i g
    using finditer_positions [OF that] by simp
  have complete: "(j, h) \<in> set (finditer lit 0 content)
      \<or> (\<exists>(i, g) \<in> set (finditer lit 0 content). i < j \<and> j < i + length lit + length g + 2)"
    if "j < length content" "match_route lit (drop j content) = Some (h, rest)"
    for lit j h rest
    using finditer_complete [OF that, of 0] by simp
  have per_lit: "findall lit content = map snd (finditer lit 0 content)
      \<and> sorted_wrt (<) (map fst (finditer lit 0 content))
      \<and> sorted_wrt (\<lambda>(i, g) (j, h). i + length lit + length g + 2 \<le> j)
            (finditer lit 0 content)
      \<and> (\<forall>(i, g) \<in> set (finditer lit 0 content).
            i < length content
            \<and> (\<exists>rest. match_route lit (drop i content) = Some (g, rest)))
      \<and> (\<forall>j h rest. j < length content
            \<and> match_route lit (drop j content) = Some (h, rest) \<longrightarrow>
            (j, h) \<in> set (finditer lit 0 content)
            \<or> (\<exists>(i, g) \<in> set (finditer lit 0 content).
                  i < j \<and> j < i + length lit + length g + 2))" for lit
  proof (intro conjI)
    show "findall lit content = map snd (finditer lit 0 content)" by (simp add: findall_def)
    show "sorted_wrt (<) (map fst (finditer lit 0 content))" by (rule finditer_sorted)
    show "sorted_wrt (\<lambda>(i, g) (j, h). i + length lit + length g + 2 \<le> j)
        (finditer lit 0 content)" by (rule finditer_apart)
    show "\<forall>(i, g) \<in> set (finditer lit 0 content).
        i < length content \<and> (\<exists>rest. match_route lit (drop i content) = Some (g, rest))"
      using sound by blast
    show "\<forall>j h rest. j < length content
        \<and> match_route lit (drop j content) = Some (h, rest) \<longrightarrow>
        (j, h) \<in> set (finditer lit 0 content)
        \<or> (\<exists>(i, g) \<in> set (finditer lit 0 content).
              i < j \<and> j < i + length lit + length g + 2)"
      using complete by blast
  qed
  with parse_routes_unfold [of content] show ?thesis by blast
qed


theorem parse_routes_grouped_by_pattern_witness:
  "parse_routes text_two_gets = [''/a'', ''/b'', ''/c'']
   \<and> finditer ''app.get('' 0 text_two_gets = [(0, ''/a''), (34, ''/b'')]
   \<and> finditer ''router.post('' 0 text_two_gets = [(15, ''/c'')]
   \<and> findall ''app.get('' text_two_gets = [''/a'', ''/b'']
   \<and> sorted_wrt (<) (map fst (finditer ''app.get('' 0 text_two_gets))
   \<and> 34 < length text_two_gets
   \<and> match_route ''app.get('' (drop 34 text_two_gets) = Some (''/b'', '');'')
   \<and> (34, ''/b'') \<in> set (finditer ''app.get('' 0 text_two_gets)
   \<and> parse_routes text_get_then_post = [''/api/users'', ''/api/orders'']"
proof -
  have a: "finditer ''app.get('' 0 text_two_gets = [(0, ''/a''), (34, ''/b'')]"
    by code_simp
  have b: "finditer ''router.post('' 0 text_two_gets = [(15, ''/c'')]"
    by code_simp
  have c: "parse_routes text_two_gets = [''/a'', ''/b'', ''/c'']"
    by code_simp
  have l: "34 < length text_two_gets"
    by (simp add: text_two_gets_def)
  have m: "match_route ''app.get('' (drop 34 text_two_gets) = Some (''/b'', '');'')"
    by code_simp
  have e: "parse_routes text_get_then_post = [''/api/users'', ''/api/orders'']"
    by code_simp
  note t = parse_routes_grouped_by_pattern [of text_two_gets]
  from t have f: "findall ''app.get('' text_two_gets
      = map snd (finditer ''app.get('' 0 text_two_gets)"
    by blast
  from t have s: "sorted_wrt (<) (map fst (finditer ''app.get('' 0 text_two_gets))"
    by blast
  from t have "\<forall>j h rest. j < length text_two_gets
      \<and> match_route ''app.get('' (drop j text_two_gets) = Some (h, rest) \<longrightarrow>
      (j, h) \<in> set (finditer ''app.get('' 0 text_two_gets)
      \<or> (\<exists>(i, g) \<in> set (finditer ''app.get('' 0 text_two_gets).
            i < j \<and> j < i + length ''app.get('' + length g + 2)"
    by blast
  with l m have "(34, ''/b'') \<in> set (finditer ''app.get('' 0 text_two_gets)
      \<or> (\<exists>(i, g) \<in> set (finditer ''app.get('' 0 text_two_gets).
            i < 34 \<and> 34 < i + length ''app.get('' + length g + 2)"
    by blast
  with a have i: "(34, ''/b'') \<in> set (finditer ''app.get('' 0 text_two_gets)"
    by simp
  from a b c l m e f s i show ?thesis by simp
qed

text \<open>
  The claim as stated fails: with the \<^verbatim>\<open>router.post\<close> call at offset 0 and the
  \<^verbatim>\<open>app.get\<close> call behind it at offset 31, the path of the \<^verbatim>\<open>app.get\<close> call comes
  first in the result.
\<close>

theorem parse_routes_post_then_get:
  "parse_routes text_post_then_get = [''/api/users'', ''/api/orders'']
   \<and> finditer ''router.post('' 0 text_post_then_get = [(0, ''/api/orders'')]
   \<and> finditer ''app.get('' 0 text_post_then_get = [(31, ''/api/users'')]"
  by code_simp

section \<open>Properties of the dependency extractor\<close>

lemma extend_sections_object:
  "\<forall>s \<in> set sections. \<forall>v. map_of m s = Some v \<longrightarrow> (\<exists>d. v = JObj d) \<Longrightarrow>
   extend_sections (JObj m) sections deps
     = Inr (deps @ concat (map (declared_names (JObj m)) sections))"
proof (induction sections arbitrary: deps)
  case Nil
  then show ?case by simp
next
  case (Cons s sections)
  show ?case
  proof (cases "map_of m s")
    case None
    then have "s \<notin> fst ` set m" by (simp add: map_of_eq_None_iff)
    with None Cons show ?thesis by (simp add: declared_names_def)
  next
    case (Some v)
    with Cons.prems obtain d where v: "v = JObj d" by auto
    from map_of_SomeD [OF Some] have "s \<in> fst ` set m" by force
    with Some v Cons show ?thesis by (simp add: declared_names_def)
  qed
qed

text \<open>
  C6, as amended. For a manifest whose dependency sections, where present, are objects,
  the extractor returns the names declared under \<^verbatim>\<open>dependencies\<close> followed by the names
  declared under \<^verbatim>\<open>devDependencies\<close>. The set of the names returned is the union of the
  declared names; a name is returned once for each section that declares it, so a name
  declared in both sections is returned twice. The manifest of the example yields
  \<^verbatim>\<open>express\<close> and \<^verbatim>\<open>jest\<close>.
\<close>

theorem extract_dependencies_sections:
  assumes "\<forall>s \<in> {''dependencies'', ''devDependencies''}.
             \<forall>v. map_of m s = Some v \<longrightarrow> (\<exists>d. v = JObj d)"
  shows "\<exists>deps. extract_dependencies (JObj m) = Inr deps
           \<and> deps = declared_names (JObj m) ''dependencies''
                    @ declared_names (JObj m) ''devDependencies''
           \<and> set deps = set (declared_names (JObj m) ''dependencies'')
                          \<union> set (declared_names (JObj m) ''devDependencies'')
           \<and> (\<forall>n. count_list deps n
                      = count_list (declared_names (JObj m) ''dependencies'') n
                        + count_list (declared_names (JObj m) ''devDependencies'') n)"
proof (cases "m = []")
  case True
  then show ?thesis by (simp add: extract_dependencies_def declared_names_def)
next
  case False
  from assms have "\<forall>s \<in> set [''dependencies'', ''devDependencies''].
      \<forall>v. map_of m s = Some v \<longrightarrow> (\<exists>d. v = JObj d)" by simp
  from extend_sections_object [OF this, of "[]"] False show ?thesis
    by (simp add: extract_dependencies_def)
qed

theorem extract_dependencies_sections_witness:
  "extract_dependencies manifest_express_jest = Inr [''express'', ''jest'']
   \<and> declared_names manifest_express_jest ''dependencies'' = [''express'']
   \<and> declared_names manifest_express_jest ''devDependencies'' = [''jest'']"
proof -
  have "\<forall>s \<in> {''dependencies'', ''devDependencies''}.
      \<forall>v. map_of [(''dependencies'', JObj [(''express'', JStr ''1.0'')]),
                   (''devDependencies'', JObj [(''jest'', JStr ''2.0'')])] s = Some v
          \<longrightarrow> (\<exists>d. v = JObj d)"
    by simp
  from extract_dependencies_sections [OF this] show ?thesis
    by (simp add: manifest_express_jest_def declared_names_def)
qed

text \<open>
  The claim as stated fails: a package declared in both sections is in the result
  twice.
\<close>

theorem extract_dependencies_duplicate:
  "extract_dependencies manifest_typescript_twice = Inr [''express'', ''typescript'', ''typescript'']
   \<and> \<not> distinct [''express'', ''typescript'', ''typescript'']"
  by (simp add: extract_dependencies_def manifest_typescript_twice_def)

section \<open>Properties of the application profiler\<close>

text \<open>
  C8, as amended. The name override comes first; otherwise an application with a
  manifest file is a component-based frontend when a component directory
  (\<^verbatim>\<open>src/components\<close> or \<^verbatim>\<open>client/src\<close>) is present and a script-runtime web
  application when none is; an application without a manifest file is a script-runtime
  web application, whether or not a component directory is present.
\<close>

theorem determine_application_type_priority:
  "(app_name = ''ParadoxResolver'' \<longrightarrow>
      determine_application_type fs app_name path = PYTHON_STREAMLIT)
   \<and> (app_name \<noteq> ''ParadoxResolver'' \<and> fs_exists fs (path @ [''package.json''])
        \<and> (fs_exists fs (path @ [''src'', ''components''])
             \<or> fs_exists fs (path @ [''client'', ''src''])) \<longrightarrow>
      determine_application_type fs app_name path = REACT_FRONTEND)
   \<and> (app_name \<noteq> ''ParadoxResolver'' \<and> fs_exists fs (path @ [''package.json''])
        \<and> \<not> fs_exists fs (path @ [''src'', ''components''])
        \<and> \<not> fs_exists fs (path @ [''client'', ''src'']) \<longrightarrow>
      determine_application_type fs app_name path = NODEJS_TYPESCRIPT)
   \<and> (app_name \<noteq> ''ParadoxResolver'' \<and> \<not> fs_exists fs (path @ [''package.json'']) \<longrightarrow>
      determine_application_type fs app_name path = NODEJS_TYPESCRIPT)"
  by (simp add: determine_application_type_def)

theorem determine_application_type_priority_witness:
  "determine_application_type components_with_manifest ''ParadoxResolver''
       [''work'', ''SpaceAgent''] = PYTHON_STREAMLIT
   \<and> fs_exists components_with_manifest [''work'', ''SpaceAgent'', ''package.json'']
   \<and> fs_exists components_with_manifest [''work'', ''SpaceAgent'', ''src'', ''components'']
   \<and> determine_application_type components_with_manifest ''SpaceAgent''
       [''work'', ''SpaceAgent''] = REACT_FRONTEND
   \<and> fs_exists malformed_manifest [''work'', ''SpaceChild'', ''package.json'']
   \<and> \<not> fs_exists malformed_manifest [''work'', ''SpaceChild'', ''src'', ''components'']
   \<and> \<not> fs_exists malformed_manifest [''work'', ''SpaceChild'', ''client'', ''src'']
   \<and> determine_application_type malformed_manifest ''SpaceChild''
       [''work'', ''SpaceChild''] = NODEJS_TYPESCRIPT
   \<and> \<not> fs_exists components_without_manifest [''work'', ''SpaceAgent'', ''package.json'']
   \<and> determine_application_type components_without_manifest ''SpaceAgent''
       [''work'', ''SpaceAgent''] = NODEJS_TYPESCRIPT"
  using determine_application_type_priority
          [of "''ParadoxResolver''" components_with_manifest "[''work'', ''SpaceAgent'']"]
        determine_application_type_priority
          [of "''SpaceAgent''" components_with_manifest "[''work'', ''SpaceAgent'']"]
        determine_application_type_priority
          [of "''SpaceChild''" malformed_manifest "[''work'', ''SpaceChild'']"]
        determine_application_type_priority
          [of "''SpaceAgent''" components_without_manifest "[''work'', ''SpaceAgent'']"]
  by (simp add: components_with_manifest_def malformed_manifest_def
        components_without_manifest_def)

text \<open>
  The claim as stated fails: a directory with \<^verbatim>\<open>src/components\<close> and no manifest file
  is classified as a script-runtime web application, not as a frontend.
\<close>

theorem components_without_manifest_not_frontend:
  "fs_exists components_without_manifest [''work'', ''SpaceAgent'', ''src'', ''components'']
   \<and> determine_application_type components_without_manifest ''SpaceAgent''
        [''work'', ''SpaceAgent''] = NODEJS_TYPESCRIPT
   \<and> NODEJS_TYPESCRIPT \<noteq> REACT_FRONTEND"
  by (simp add: determine_application_type_def components_without_manifest_def)

text \<open>
  Without a manifest file the profiler returns a record, with no port and no
  dependencies.
\<close>

lemma analyze_application_no_manifest:
  assumes "\<not> fs_exists fs (path @ [''package.json''])"
  shows "\<exists>r. analyze_application fs app_name path = Inr r
           \<and> port r = None \<and> dependencies r = []"
  using assms
  by (simp add: analyze_application_def Let_def extract_port_def extract_dependencies_def)

text \<open>
  C7. The claim: profiling never raises when the manifest fails to parse, the failure
  being absorbed as the route and schema extractors absorb theirs. The manifest is
  loaded outside any handler: for a script-runtime application whose manifest is not
  valid JSON the profiler raises \<^verbatim>\<open>JSONDecodeError\<close> and returns no record, and
  discovery of the workspace raises with it.
\<close>

theorem analyze_application_malformed_manifest:
  "determine_application_type malformed_manifest ''SpaceChild'' [''work'', ''SpaceChild'']
     = NODEJS_TYPESCRIPT
   \<and> fs_json_load malformed_manifest [''work'', ''SpaceChild'', ''package.json'']
     = Inl JSONDecodeError
   \<and> analyze_application malformed_manifest ''SpaceChild'' [''work'', ''SpaceChild'']
     = Inl JSONDecodeError
   \<and> discover_applications malformed_manifest [''work'', ''SpaceChild''] = Inl JSONDecodeError"
  by (simp add: discover_applications_def app_directories_def analyze_application_def
        determine_application_type_def malformed_manifest_def Let_def)

theorem analyze_application_malformed_manifest_witness:
  "\<not> (\<exists>r. analyze_application malformed_manifest ''SpaceChild'' [''work'', ''SpaceChild''] = Inr r)"
  using analyze_application_malformed_manifest by simp

section \<open>Properties of discovery\<close>

text \<open>The registry that discovery returns has pairwise distinct names.\<close>

lemma dict_set_keys: "fst ` set (dict_set d k v) = insert k (fst ` set d)"
  by (induction d k v rule: dict_set.induct) auto

lemma dict_set_distinct: "distinct (map fst d) \<Longrightarrow> distinct (map fst (dict_set d k v))"
  by (induction d k v rule: dict_set.induct) (auto simp: dict_set_keys)

lemma discover_loop_distinct:
  "distinct (map fst apps) \<Longrightarrow> discover_loop fs w names apps = Inr R \<Longrightarrow> distinct (map fst R)"
proof (induction names arbitrary: apps)
  case Nil
  then show ?case by simp
next
  case (Cons a names)
  show ?case
  proof (cases "fs_exists fs (butlast w @ [a])")
    case False
    with Cons show ?thesis by (simp add: Let_def)
  next
    case True
    with Cons.prems obtain x where "discover_loop fs w names (dict_set apps a x) = Inr R"
      by (auto simp: Let_def split: sum.splits)
    with Cons.IH [OF dict_set_distinct [OF Cons.prems(1)]] show ?thesis by blast
  qed
qed

lemma discover_applications_distinct:
  "discover_applications fs w = Inr R \<Longrightarrow> distinct (map fst R)"
  using discover_loop_distinct [of "[]"] by (simp add: discover_applications_def)

end
